theory Spec2Isabelle
  imports Complex_Main "HOL-Library.Word" "HOL-Library.Sublist"
begin

section \<open>JavaScript values\<close>

text \<open>
  A JavaScript string is a sequence of UTF-16 code units. String literals of the
  source are ASCII and are written through \<open>js\<close>.
\<close>

type_synonym jschar = "16 word"
type_synonym jsstring = "jschar list"

definition js :: "string \<Rightarrow> jsstring" where
  "js s = map (\<lambda>c. of_nat (of_char c)) s"

section \<open>Upload surface: \<open>formatFileSize\<close> (components/VideoUploader.jsx)\<close>

text \<open>
  \<^verbatim>\<open>
  const formatFileSize = (bytes) => {
    if (bytes === 0) return '0 Bytes';
    const k = 1024;
    const sizes = ['Bytes', 'KB', 'MB', 'GB'];
    const i = Math.floor(Math.log(bytes) / Math.log(k));
    return parseFloat((bytes / Math.pow(k, i)).toFixed(2)) + ' ' + sizes[i];
  };
  \<close>
  The argument is \<open>selectedFile.size\<close>, a non-negative integer, hence a \<open>nat\<close>.
\<close>

definition k :: nat where
  "k = 1024"

definition sizes :: "jsstring list" where
  "sizes = [js ''Bytes'', js ''KB'', js ''MB'', js ''GB'']"

text \<open>
  Numbers are doubles. \<open>Math.log(bytes) / Math.log(k)\<close> rounds, in both logarithms and
  in the division, so its value is not the real quotient \<open>ln bytes / ln k\<close>: it is a
  parameter \<open>q\<close> of the model, \<open>q bytes\<close> being the double the engine computes.
  \<open>double_quotient q\<close> states what is used of it: it differs from the real quotient by
  at most the \<open>2^48\<close>th part of it (the roundings of doubles amount to about the
  \<open>2^51\<close>th part), and at the powers \<open>1, 1024, \<dots>, 1024^4\<close> it is not below the
  exact values \<open>0, 1, \<dots>, 4\<close>. \<open>Math.floor\<close> is exact.
\<close>

definition double_quotient :: "(nat \<Rightarrow> real) \<Rightarrow> bool" where
  "double_quotient q \<longleftrightarrow>
     (\<forall>b. 0 < b \<longrightarrow>
        \<bar>q b - ln (real b) / ln (real k)\<bar> \<le> ln (real b) / ln (real k) / 2 ^ 48) \<and>
     (\<forall>i. i \<le> 4 \<longrightarrow> real i \<le> q (k ^ i))"

definition log_index :: "(nat \<Rightarrow> real) \<Rightarrow> nat \<Rightarrow> int" where
  "log_index q bytes = \<lfloor>q bytes\<rfloor>"

text \<open>
  \<open>x.toFixed(2)\<close> picks the integer \<open>n\<close> for which \<open>n / 100 - x\<close> is as close to zero
  as possible, the larger one on a tie, and prints \<open>n / 100\<close> with two decimals;
  \<open>parseFloat\<close> reads that number back. \<open>toFixed2 bytes d\<close> is this \<open>n\<close> for
  \<open>x = bytes / d\<close> (lemma \<open>toFixed2_real\<close> below); a size divided by a power of 1024 is
  an exact double.
\<close>

definition toFixed2 :: "nat \<Rightarrow> nat \<Rightarrow> nat" where
  "toFixed2 bytes d = (200 * bytes + d) div (2 * d)"

definition digit :: "nat \<Rightarrow> jschar" where
  "digit d = of_nat (48 + d)"

definition dot :: jschar where
  "dot = 46"

function digits :: "nat \<Rightarrow> jsstring" where
  "digits n = (if n < 10 then [digit n] else digits (n div 10) @ [digit (n mod 10)])"
  by pat_completeness auto
termination
  by (relation "measure id") auto

declare digits.simps [simp del]

text \<open>
  The number \<open>n / 100\<close> converted to a string, as \<open>+ ' '\<close> does: the integer part and,
  when the fraction is not zero, a point and the fraction without trailing zeros.
\<close>

definition number_string :: "nat \<Rightarrow> jsstring" where
  "number_string n =
     digits (n div 100) @
     (if n mod 100 = 0 then []
      else dot # digit (n mod 100 div 10) # (if n mod 10 = 0 then [] else [digit (n mod 10)]))"

text \<open>\<open>sizes[i]\<close>: \<open>undefined\<close> (here \<open>None\<close>) outside the table.\<close>

definition sizes_at :: "int \<Rightarrow> jsstring option" where
  "sizes_at i = (if 0 \<le> i \<and> i < int (length sizes) then Some (sizes ! nat i) else None)"

text \<open>String concatenation prints \<open>undefined\<close> as the word "undefined".\<close>

definition concat_string :: "jsstring option \<Rightarrow> jsstring" where
  "concat_string u = (case u of None \<Rightarrow> js ''undefined'' | Some s \<Rightarrow> s)"

text \<open>
  \<open>bytes / Math.pow(k, i)\<close> is \<open>bytes / k^i\<close> for an index \<open>i \<ge> 0\<close> and
  \<open>bytes * k^(-i)\<close> for a negative one.
\<close>

definition formatFileSize :: "(nat \<Rightarrow> real) \<Rightarrow> nat \<Rightarrow> jsstring" where
  "formatFileSize q bytes =
     (if bytes = 0 then js ''0 Bytes''
      else let i = log_index q bytes
           in number_string (toFixed2 (bytes * k ^ nat (- i)) (k ^ nat i)) @ js '' '' @
              concat_string (sizes_at i))"

subsection \<open>Reading a formatted size\<close>

text \<open>
  What a reader takes from the text, written without the functions above: the number
  before the space, in hundredths, when it is a decimal numeral with at most two
  digits after the point (code unit 46), and the unit after the space (code unit 32).
\<close>

definition is_digit :: "jschar \<Rightarrow> bool" where
  "is_digit c \<longleftrightarrow> 48 \<le> c \<and> c \<le> 57"

definition read_nat :: "jsstring \<Rightarrow> nat" where
  "read_nat ds = foldl (\<lambda>v c. 10 * v + (unat c - 48)) 0 ds"





section \<open>JSON payloads and property access\<close>

text \<open>
  A decoded response body is a JSON value; \<open>Undefined\<close> is what a missing property
  reads as. An object lists each key once. Numbers are taken as reals.
\<close>

datatype jsval =
    Undefined
  | Null
  | Bool bool
  | Num real
  | Str jsstring
  | Arr "jsval list"
  | Obj "(jsstring \<times> jsval) list"

datatype js_error = TypeError

fun truthy :: "jsval \<Rightarrow> bool" where
  "truthy Undefined = False"
| "truthy Null = False"
| "truthy (Bool b) = b"
| "truthy (Num x) = (x \<noteq> 0)"
| "truthy (Str s) = (s \<noteq> [])"
| "truthy (Arr xs) = True"
| "truthy (Obj kvs) = True"

text \<open>
  \<open>v.key\<close> for the keys the source reads (\<open>success\<close>, \<open>error\<close>, \<open>detail\<close>, \<open>result\<close>,
  \<open>analysis_description\<close>), none of which a string, number, boolean or array has:
  reading a property of \<open>null\<close> or \<open>undefined\<close> throws a TypeError.
\<close>

fun get_prop :: "jsval \<Rightarrow> jsstring \<Rightarrow> js_error + jsval" where
  "get_prop Undefined key = Inl TypeError"
| "get_prop Null key = Inl TypeError"
| "get_prop (Obj kvs) key = Inr (case map_of kvs key of None \<Rightarrow> Undefined | Some v \<Rightarrow> v)"
| "get_prop v key = Inr Undefined"

text \<open>\<open>v?.key\<close>\<close>

fun get_prop_opt :: "jsval \<Rightarrow> jsstring \<Rightarrow> jsval" where
  "get_prop_opt Undefined key = Undefined"
| "get_prop_opt Null key = Undefined"
| "get_prop_opt (Obj kvs) key = (case map_of kvs key of None \<Rightarrow> Undefined | Some v \<Rightarrow> v)"
| "get_prop_opt v key = Undefined"

text \<open>\<open>a || b\<close>\<close>

definition js_or :: "jsval \<Rightarrow> jsval \<Rightarrow> jsval" where
  "js_or a b = (if truthy a then a else b)"

text \<open>
  \<open>String.prototype.trim\<close> removes the white space and line terminators of
  ECMAScript from both ends.
\<close>

definition is_whitespace :: "jschar \<Rightarrow> bool" where
  "is_whitespace c \<longleftrightarrow>
     c \<in> {0x09, 0x0A, 0x0B, 0x0C, 0x0D, 0x20, 0xA0, 0x1680, 0x2028, 0x2029, 0x202F,
          0x205F, 0x3000, 0xFEFF}
     \<or> (0x2000 \<le> c \<and> c \<le> 0x200A)"

definition trim :: "jsstring \<Rightarrow> jsstring" where
  "trim s = rev (dropWhile is_whitespace (rev (dropWhile is_whitespace s)))"

section \<open>Outbound calls\<close>

record video_file =
  file_name :: jsstring
  file_size :: nat
  file_type :: jsstring

datatype form_value = FileValue video_file | TextValue jsstring

record request =
  url :: jsstring
  http_method :: jsstring
  headers :: "(jsstring \<times> jsstring) list"
  form :: "(jsstring \<times> form_value) list"

text \<open>
  An async function runs to its first \<open>await\<close> or returns before it: \<open>Returned\<close> is
  the state at an early return, \<open>Awaiting\<close> the state while the call is outstanding.
\<close>

datatype 's phase = Returned 's | Awaiting 's

section \<open>Lifecycle controller: \<open>analyzeVideo\<close> (hooks/useVideoAnalysis.jsx)\<close>

text \<open>
  The hook's state (\<open>isAnalyzing\<close>, \<open>result\<close>, \<open>progress\<close>) together with what the call
  leaves in its environment: the toasts shown, the \<open>fetch\<close> calls issued, whether the
  timer \<open>progressInterval\<close> (period 500 ms) is registered, the delays of the pending
  \<open>setTimeout(() => setProgress(0), 1000)\<close> callbacks and the number of
  \<open>console.error\<close> lines.
\<close>

datatype toast = ToastError jsval | ToastSuccess jsval

record hook_state =
  isAnalyzing :: bool
  result :: jsval
  progress :: real
  toasts :: "toast list"
  requests :: "request list"
  progressInterval :: "nat option"
  timeouts :: "nat list"
  console_errors :: nat

definition useVideoAnalysis :: hook_state where
  "useVideoAnalysis =
     \<lparr>isAnalyzing = False, result = Null, progress = 0, toasts = [], requests = [],
      progressInterval = None, timeouts = [], console_errors = 0\<rparr>"

text \<open>
  \<^verbatim>\<open>
    if (!file) { toast.error('Please select a video file first'); return; }
    if (analysisType === 'custom' && !customPrompt?.trim()) {
      toast.error('Please enter a custom prompt for analysis'); return;
    }
    setIsAnalyzing(true); setProgress(0); setResult(null);
    const formData = new FormData();
    formData.append('video_file', file);
    formData.append('analysis_type', analysisType);
    if (analysisType === 'custom') { formData.append('custom_prompt', customPrompt); }
    try {
      const progressInterval = setInterval(..., 500);
      const response = await fetch('http://localhost:8000/analyze-video',
                                   { method: 'POST', body: formData });
  \<close>
  An absent \<open>file\<close> or \<open>customPrompt\<close> (\<open>null\<close>, \<open>undefined\<close>) is \<open>None\<close>.
\<close>

definition trimmed_prompt :: "jsstring option \<Rightarrow> jsval" where
  "trimmed_prompt customPrompt =
     (case customPrompt of None \<Rightarrow> Undefined | Some p \<Rightarrow> Str (trim p))"

definition formData :: "video_file \<Rightarrow> jsstring \<Rightarrow> jsstring option \<Rightarrow> (jsstring \<times> form_value) list" where
  "formData f analysisType customPrompt =
     [(js ''video_file'', FileValue f), (js ''analysis_type'', TextValue analysisType)] @
     (if analysisType = js ''custom''
      then [(js ''custom_prompt'',
             TextValue (case customPrompt of None \<Rightarrow> js ''undefined'' | Some p \<Rightarrow> p))]
      else [])"

definition analyzeVideo_begin ::
  "video_file option \<Rightarrow> jsstring \<Rightarrow> jsstring option \<Rightarrow> hook_state \<Rightarrow> hook_state phase" where
  "analyzeVideo_begin file analysisType customPrompt st =
     (case file of
        None \<Rightarrow>
          Returned (st\<lparr>toasts := toasts st @
            [ToastError (Str (js ''Please select a video file first''))]\<rparr>)
      | Some f \<Rightarrow>
          if analysisType = js ''custom'' \<and> \<not> truthy (trimmed_prompt customPrompt)
          then Returned (st\<lparr>toasts := toasts st @
            [ToastError (Str (js ''Please enter a custom prompt for analysis''))]\<rparr>)
          else Awaiting (st\<lparr>isAnalyzing := True, progress := 0, result := Null,
            progressInterval := Some 500,
            requests := requests st @
              [\<lparr>url = js ''http://localhost:8000/analyze-video'', http_method = js ''POST'',
                headers = [], form = formData f analysisType customPrompt\<rparr>]\<rparr>))"

text \<open>
  The timer's callback, with \<open>r\<close> the value of \<open>Math.random()\<close>; it runs only while
  the timer is registered.
  \<^verbatim>\<open>
      setProgress(prev => {
        if (prev >= 90) { clearInterval(progressInterval); return 90; }
        return prev + Math.random() * 10;
      });
  \<close>
\<close>

definition progress_tick :: "real \<Rightarrow> hook_state \<Rightarrow> hook_state" where
  "progress_tick r st =
     (if progressInterval st = None then st
      else if progress st \<ge> 90 then st\<lparr>progressInterval := None, progress := 90\<rparr>
      else st\<lparr>progress := progress st + r * 10\<rparr>)"

text \<open>
  How the outstanding call ends: \<open>fetch\<close> rejects (no response), \<open>fetch\<close> resolves
  and \<open>response.json()\<close> rejects (no decodable body), or the body decodes.
\<close>

datatype fetch_outcome = FetchRejects | JsonRejects | JsonBody jsval

text \<open>
  \<^verbatim>\<open>
      clearInterval(progressInterval);
      setProgress(100);
  \<close>
\<close>

definition after_fetch :: "hook_state \<Rightarrow> hook_state" where
  "after_fetch st = st\<lparr>progressInterval := None, progress := 100\<rparr>"

text \<open>
  \<^verbatim>\<open>
    } catch (error) {
      console.error('Error:', error);
      toast.error('Failed to analyze video. Please check your connection.');
      setResult({ success: false, error: 'Network error occurred',
                  analysis_type: analysisType });
    }
  \<close>
\<close>

definition network_error_result :: "jsstring \<Rightarrow> jsval" where
  "network_error_result analysisType =
     Obj [(js ''success'', Bool False), (js ''error'', Str (js ''Network error occurred'')),
          (js ''analysis_type'', Str analysisType)]"

definition catch_block :: "jsstring \<Rightarrow> hook_state \<Rightarrow> hook_state" where
  "catch_block analysisType st =
     st\<lparr>console_errors := Suc (console_errors st),
        toasts := toasts st @
          [ToastError (Str (js ''Failed to analyze video. Please check your connection.''))],
        result := network_error_result analysisType\<rparr>"

text \<open>
  \<^verbatim>\<open>
    } finally {
      setIsAnalyzing(false);
      setTimeout(() => setProgress(0), 1000);
    }
  \<close>
\<close>

definition finally_block :: "hook_state \<Rightarrow> hook_state" where
  "finally_block st = st\<lparr>isAnalyzing := False, timeouts := timeouts st @ [1000]\<rparr>"

text \<open>
  \<^verbatim>\<open>
      const data = await response.json();
      if (data.success) {
        setResult(data);
        toast.success('Video analysis completed!');
      } else {
        toast.error(data.error || 'Analysis failed');
        setResult(data);
      }
  \<close>
\<close>

definition on_data :: "jsstring \<Rightarrow> jsval \<Rightarrow> hook_state \<Rightarrow> hook_state" where
  "on_data analysisType data st =
     (case get_prop data (js ''success'') of
        Inl e \<Rightarrow> catch_block analysisType st
      | Inr success \<Rightarrow>
          if truthy success
          then st\<lparr>result := data,
                 toasts := toasts st @ [ToastSuccess (Str (js ''Video analysis completed!''))]\<rparr>
          else (case get_prop data (js ''error'') of
                  Inl e \<Rightarrow> catch_block analysisType st
                | Inr err \<Rightarrow>
                    st\<lparr>toasts := toasts st @
                         [ToastError (js_or err (Str (js ''Analysis failed'')))],
                       result := data\<rparr>))"

definition analyzeVideo_settle :: "jsstring \<Rightarrow> fetch_outcome \<Rightarrow> hook_state \<Rightarrow> hook_state" where
  "analyzeVideo_settle analysisType outcome st =
     finally_block
       (case outcome of
          FetchRejects \<Rightarrow> catch_block analysisType st
        | JsonRejects \<Rightarrow> catch_block analysisType (after_fetch st)
        | JsonBody data \<Rightarrow> on_data analysisType data (after_fetch st))"

text \<open>The callback of \<open>setTimeout(() => setProgress(0), 1000)\<close>.\<close>

definition reset_progress :: "hook_state \<Rightarrow> hook_state" where
  "reset_progress st =
     (case timeouts st of [] \<Rightarrow> st | t # ts \<Rightarrow> st\<lparr>progress := 0, timeouts := ts\<rparr>)"

text \<open>
  What can happen once the request is issued: the timer fires, the call settles, a
  reset timeout fires. A run of \<open>analyzeVideo\<close> is the call followed by such events
  in the order they happen; the state followed is that of this one call.
\<close>

datatype event = Tick real | Settles fetch_outcome | ResetFires

fun step :: "jsstring \<Rightarrow> hook_state \<Rightarrow> event \<Rightarrow> hook_state" where
  "step analysisType st (Tick r) = progress_tick r st"
| "step analysisType st (Settles outcome) = analyzeVideo_settle analysisType outcome st"
| "step analysisType st ResetFires = reset_progress st"

definition analyzeVideo ::
  "video_file option \<Rightarrow> jsstring \<Rightarrow> jsstring option \<Rightarrow> event list \<Rightarrow> hook_state \<Rightarrow> hook_state" where
  "analyzeVideo file analysisType customPrompt events st =
     (case analyzeVideo_begin file analysisType customPrompt st of
        Returned st' \<Rightarrow> st'
      | Awaiting st' \<Rightarrow> foldl (step analysisType) st' events)"

section \<open>Transport client and application: \<open>analyzeVideoFile\<close>, \<open>handleAnalyze\<close>\<close>

text \<open>
  How the axios call ends: a 2xx response with its decoded \<open>data\<close>, no response at
  all (network failure, timeout), or a response with another status and its \<open>data\<close>.
\<close>

datatype axios_outcome = Fulfilled jsval | NoResponse | BadStatus nat jsval

definition analyzeVideoFile_request :: "video_file \<Rightarrow> jsstring \<Rightarrow> request" where
  "analyzeVideoFile_request f analysisType =
     \<lparr>url = js ''http://localhost:8000/analyze-video-file'', http_method = js ''POST'',
      headers = [(js ''Content-Type'', js ''multipart/form-data'')],
      form = [(js ''file'', FileValue f), (js ''analysis_type'', TextValue analysisType)]\<rparr>"

text \<open>\<open>error.response?.data?.detail\<close>\<close>

fun error_detail :: "axios_outcome \<Rightarrow> jsval" where
  "error_detail (BadStatus status data) = get_prop_opt data (js ''detail'')"
| "error_detail outcome = Undefined"

text \<open>
  \<open>new Error(v)\<close> stores the string of \<open>v\<close> as its message: \<open>v\<close> itself when it is
  a string, and what the conversion \<open>conv\<close> of the language gives otherwise.
\<close>

definition ToString :: "(jsval \<Rightarrow> jsstring) \<Rightarrow> jsval \<Rightarrow> jsstring" where
  "ToString conv v = (case v of Str s \<Rightarrow> s | _ \<Rightarrow> conv v)"

text \<open>
  \<^verbatim>\<open>
    try { ... const response = await api.post('/analyze-video-file', formData, ...);
          return response.data;
    } catch (error) {
      throw new Error(error.response?.data?.detail || 'Failed to analyze video');
    }
  \<close>
  \<open>Inl\<close> is the message of the error thrown.
\<close>

definition analyzeVideoFile :: "(jsval \<Rightarrow> jsstring) \<Rightarrow> axios_outcome \<Rightarrow> jsstring + jsval" where
  "analyzeVideoFile conv outcome =
     (case outcome of
        Fulfilled data \<Rightarrow> Inr data
      | _ \<Rightarrow> Inl (ToString conv (js_or (error_detail outcome) (Str (js ''Failed to analyze video'')))))"

record app_state =
  selectedFile :: "video_file option"
  analysisType :: jsstring
  results :: jsval
  loading :: bool
  error :: "jsstring option"
  calls :: "request list"

text \<open>
  \<^verbatim>\<open>
    if (!selectedFile || !analysisType) {
      setError("Please select a video file and analysis type");
      return;
    }
    setLoading(true); setError(null); setResults(null);
    try { const result = await analyzeVideoFile(selectedFile, analysisType);
  \<close>
\<close>

definition handleAnalyze_begin :: "app_state \<Rightarrow> app_state phase" where
  "handleAnalyze_begin st =
     (case selectedFile st of
        None \<Rightarrow> Returned (st\<lparr>error := Some (js ''Please select a video file and analysis type'')\<rparr>)
      | Some f \<Rightarrow>
          if analysisType st = []
          then Returned (st\<lparr>error := Some (js ''Please select a video file and analysis type'')\<rparr>)
          else Awaiting (st\<lparr>loading := True, error := None, results := Null,
                 calls := calls st @ [analyzeVideoFile_request f (analysisType st)]\<rparr>))"

text \<open>
  \<^verbatim>\<open>
          setResults(result);
    } catch (err) { setError(err.message || "Analysis failed. Please try again."); }
    finally { setLoading(false); }
  \<close>
\<close>

definition handleAnalyze_settle ::
  "(jsval \<Rightarrow> jsstring) \<Rightarrow> axios_outcome \<Rightarrow> app_state \<Rightarrow> app_state" where
  "handleAnalyze_settle conv outcome st =
     (case analyzeVideoFile conv outcome of
        Inr r \<Rightarrow> st\<lparr>results := r, loading := False\<rparr>
      | Inl message \<Rightarrow>
          st\<lparr>error := Some (if message \<noteq> [] then message
                             else js ''Analysis failed. Please try again.''),
             loading := False\<rparr>)"

definition handleAnalyze :: "(jsval \<Rightarrow> jsstring) \<Rightarrow> axios_outcome \<Rightarrow> app_state \<Rightarrow> app_state" where
  "handleAnalyze conv outcome st =
     (case handleAnalyze_begin st of
        Returned st' \<Rightarrow> st'
      | Awaiting st' \<Rightarrow> handleAnalyze_settle conv outcome st')"

section \<open>Results renderer (components/ResultsDisplay.jsx)\<close>

text \<open>
  \<open>text.split(sep)\<close> with a string separator: the pieces between the successive
  occurrences of \<open>sep\<close>, found from left to right without overlap; with the empty
  separator, the code units.
\<close>

function split_at :: "'a list \<Rightarrow> 'a list \<Rightarrow> 'a list \<Rightarrow> 'a list list" where
  "split_at sep cur [] = [cur]"
| "split_at sep cur (c # cs) =
     (if sep \<noteq> [] \<and> take (length sep) (c # cs) = sep
      then cur # split_at sep [] (drop (length sep) (c # cs))
      else split_at sep (cur @ [c]) cs)"
  by pat_completeness auto
termination
  by (relation "measure (\<lambda>(sep, cur, s). length s)") auto

definition split :: "'a list \<Rightarrow> 'a list \<Rightarrow> 'a list list" where
  "split s sep = (if sep = [] then map (\<lambda>c. [c]) s else split_at sep [] s)"

text \<open>\<open>pieces.join(sep)\<close>\<close>

fun join :: "'a list list \<Rightarrow> 'a list \<Rightarrow> 'a list" where
  "join [] sep = []"
| "join [p] sep = p"
| "join (p # q # ps) sep = p @ sep @ join (q # ps) sep"

datatype node = Text jsstring | Br

text \<open>
  \<^verbatim>\<open>
    const paragraphs = text.split("\n\n");
    return paragraphs.map((paragraph, index) => (
      <p key={index} className="mb-4 last:mb-0">
        {paragraph.split("\n").map((line, lineIndex) => (
          <React.Fragment key={lineIndex}>
            {line}
            {lineIndex < paragraph.split("\n").length - 1 && <br />}
          </React.Fragment>
        ))}
      </p>
    ));
  \<close>
  A \<open><p>\<close> element is the list of its children.
\<close>

definition fragment :: "jsstring \<Rightarrow> nat \<times> jsstring \<Rightarrow> node list" where
  "fragment paragraph il =
     (case il of (lineIndex, line) \<Rightarrow>
        Text line #
        (if int lineIndex < int (length (split paragraph (js ''\<newline>''))) - 1 then [Br] else []))"

definition render_paragraph :: "jsstring \<Rightarrow> node list" where
  "render_paragraph paragraph =
     concat (map (fragment paragraph) (enumerate 0 (split paragraph (js ''\<newline>''))))"

definition formatResult :: "jsstring \<Rightarrow> node list list" where
  "formatResult text = map render_paragraph (split text (js ''\<newline>\<newline>''))"

text \<open>
  The component reads \<open>results.analysis_description\<close> and calls
  \<open>formatResult(results.result)\<close>; \<open>text.split\<close> exists only on a string.
\<close>

record rendered =
  description :: jsval
  paragraphs :: "node list list"

definition ResultsDisplay :: "jsval \<Rightarrow> js_error + rendered" where
  "ResultsDisplay payload =
     (case get_prop payload (js ''analysis_description'') of
        Inl e \<Rightarrow> Inl e
      | Inr d \<Rightarrow>
          (case get_prop payload (js ''result'') of
             Inl e \<Rightarrow> Inl e
           | Inr (Str text) \<Rightarrow> Inr \<lparr>description = d, paragraphs = formatResult text\<rparr>
           | Inr _ \<Rightarrow> Inl TypeError))"

text \<open>
  \<open>copyToClipboard\<close>: the value handed to \<open>navigator.clipboard.writeText\<close>, or the
  error its \<open>try\<close> catches.
\<close>

definition copyToClipboard :: "jsval \<Rightarrow> js_error + jsval" where
  "copyToClipboard payload = get_prop payload (js ''result'')"

section \<open>Scenario inputs\<close>

text \<open>The file \<open>clip.mp4\<close> of the scenarios, and the application with it selected.\<close>

definition clip :: video_file where
  "clip = \<lparr>file_name = js ''clip.mp4'', file_size = 1048576, file_type = js ''video/mp4''\<rparr>"

text \<open>
  The conversion to a string for the scenarios, whose values are strings and plain
  objects: a plain object prints as "[object Object]".
\<close>

definition object_string :: "jsval \<Rightarrow> jsstring" where
  "object_string v = js ''[object Object]''"

definition ready :: app_state where
  "ready = \<lparr>selectedFile = Some clip, analysisType = js ''technical_analysis'', results = Null,
     loading = False, error = None, calls = []\<rparr>"


definition late_quotient :: "nat \<Rightarrow> real" where
  "late_quotient b = (if b = 2 ^ 50 - 1 then 5 else ln (real b) / ln (real k))"

section \<open>Properties of \<open>formatFileSize\<close>\<close>

subsection \<open>The index\<close>

lemma ln_k_bounds: "0 < ln (real k)" "ln (real k) < 10"
proof -
  have "real k = 2 ^ 10"
    by (simp add: k_def)
  then have "ln (real k) = ln (2 ^ 10)"
    by (simp only:)
  also have "\<dots> = real 10 * ln 2"
    by (rule ln_realpow)
  finally have e: "ln (real k) = 10 * ln 2"
    by simp
  have "0 < ln (2::real)" by simp
  with e show "0 < ln (real k)" by simp
  from ln_2_less_1 e show "ln (real k) < 10" by simp
qed

lemma ln_power_k: "ln (real (k ^ j)) = real j * ln (real k)"
  by (simp add: ln_realpow)

lemma quotient_nonneg:
  assumes "0 < b"
  shows "0 \<le> ln (real b) / ln (real k)"
proof -
  from assms have "0 \<le> ln (real b)" by simp
  with ln_k_bounds(1) show ?thesis by simp
qed

lemma quotient_below:
  assumes dq: "double_quotient q" and pos: "0 < b" and lt: "b < k ^ j" and j4: "j \<le> 4"
  shows "q b < real j"
proof -
  define L where "L = ln (real b) / ln (real k)"
  define K where "K = real (k ^ j)"
  from pos lt have "1 < k ^ j" by linarith
  then have Kpos: "1 < K"
    unfolding K_def by (metis of_nat_1 of_nat_less_iff)
  have K40: "K \<le> 2 ^ 40"
  proof -
    from j4 have "k ^ j \<le> k ^ 4"
      by (intro power_increasing) (simp_all add: k_def)
    then have "real (k ^ j) \<le> real (k ^ 4)"
      by (simp only: of_nat_le_iff)
    then show ?thesis by (simp add: K_def k_def)
  qed
  from lt have "Suc b \<le> k ^ j" by simp
  then have "real (Suc b) \<le> K"
    unfolding K_def by (simp only: of_nat_le_iff)
  then have bK: "real b \<le> K - 1" by simp
  have lnK: "ln K = real j * ln (real k)"
    unfolding K_def by (rule ln_power_k)
  from bK pos have "ln (real b) \<le> ln (K - 1)" by simp
  also have "ln (K - 1) = ln K + ln ((K - 1) / K)"
    using Kpos by (simp add: ln_div)
  also have "ln ((K - 1) / K) \<le> (K - 1) / K - 1"
    using Kpos by (intro ln_le_minus_one) simp
  also have "(K - 1) / K - 1 = - (1 / K)"
    using Kpos by (simp add: field_simps)
  finally have lnb: "ln (real b) \<le> real j * ln (real k) - 1 / K"
    by (simp add: lnK)
  have invK: "1 / 2 ^ 40 \<le> 1 / K"
    using K40 Kpos by (intro divide_left_mono) simp_all
  have Lk: "L * ln (real k) = ln (real b)"
    using ln_k_bounds(1) by (simp add: L_def)
  have L4: "L \<le> 4"
  proof -
    from Kpos have "0 < 1 / K" by simp
    with lnb have "ln (real b) \<le> real j * ln (real k)" by linarith
    then have "L * ln (real k) \<le> real j * ln (real k)" by (simp only: Lk)
    with ln_k_bounds(1) have "L \<le> real j" by simp
    with j4 show ?thesis by simp
  qed
  define E where "E = L / 2 ^ 48"
  define c :: real where "c = 4 / 2 ^ 48"
  have c: "0 < c" "c * 10 \<le> 1 / 2 ^ 40"
    by (simp_all add: c_def)
  from dq pos have "\<bar>q b - L\<bar> \<le> E"
    by (simp only: double_quotient_def L_def E_def)
  then have "q b \<le> L + E" by linarith
  moreover from L4 have "E \<le> c"
    unfolding E_def c_def by (rule divide_right_mono) simp
  ultimately have qb: "q b \<le> L + c" by linarith
  have "(L + c) * ln (real k) < real j * ln (real k)"
  proof -
    have "(L + c) * ln (real k) = ln (real b) + c * ln (real k)"
      using Lk by (simp add: algebra_simps)
    also have "\<dots> \<le> real j * ln (real k) - 1 / K + c * ln (real k)"
      using lnb by linarith
    also have "\<dots> < real j * ln (real k) - 1 / K + c * 10"
      using ln_k_bounds(2) c(1) by simp
    also have "\<dots> \<le> real j * ln (real k)"
      using invK c(2) by linarith
    finally show ?thesis .
  qed
  then have "L + c < real j"
    using ln_k_bounds(1) by simp
  with qb show ?thesis by linarith
qed

lemma quotient_above:
  assumes dq: "double_quotient q" and ge: "k ^ j \<le> b" and j4: "j \<le> 4"
  shows "real j \<le> q b"
proof (cases "b = k ^ j")
  case True
  from dq j4 have "real j \<le> q (k ^ j)"
    by (simp add: double_quotient_def)
  with True show ?thesis
    by simp
next
  case False
  define L where "L = ln (real b) / ln (real k)"
  define K where "K = real (k ^ j)"
  define x where "x = 1 / K"
  define d where "d = x - x\<^sup>2"
  define e :: real where "e = 1 / 2 ^ 48"
  have e: "0 < e" "e \<le> 1 / 2" "e * 40 \<le> 1 / 2 ^ 42"
    by (simp_all add: e_def)
  have "0 < k ^ j" by (simp add: k_def)
  then have K1: "1 \<le> K"
    unfolding K_def by (metis Suc_leI of_nat_1 of_nat_le_iff One_nat_def)
  from \<open>0 < k ^ j\<close> ge have pos: "0 < b" by linarith
  have K40: "K \<le> 2 ^ 40"
  proof -
    from j4 have "k ^ j \<le> k ^ 4"
      by (intro power_increasing) (simp_all add: k_def)
    then have "real (k ^ j) \<le> real (k ^ 4)"
      by (simp only: of_nat_le_iff)
    then show ?thesis by (simp add: K_def k_def)
  qed
  have x: "0 < x" "x \<le> 1" "1 / 2 ^ 40 \<le> x"
  proof -
    from K1 show "0 < x" by (simp add: x_def)
    from K1 show "x \<le> 1" by (simp add: x_def)
    from K1 K40 show "1 / 2 ^ 40 \<le> x"
      unfolding x_def by (intro divide_left_mono) simp_all
  qed
  from False ge have "Suc (k ^ j) \<le> b" by simp
  then have "real (Suc (k ^ j)) \<le> real b"
    by (simp only: of_nat_le_iff)
  then have bK: "K + 1 \<le> real b"
    by (simp add: K_def)
  have lnK: "ln K = real j * ln (real k)"
    unfolding K_def by (rule ln_power_k)
  have "ln K + ln (1 + x) = ln (K * (1 + x))"
    using K1 x(1) by (simp add: ln_mult)
  also have "K * (1 + x) = K + 1"
    using K1 by (simp add: x_def field_simps)
  also have "ln (K + 1) \<le> ln (real b)"
    using bK K1 by simp
  finally have "ln K + ln (1 + x) \<le> ln (real b)" .
  moreover have "d \<le> ln (1 + x)"
    unfolding d_def using x(1,2) by (intro ln_one_plus_pos_lower_bound) simp_all
  ultimately have lnb: "real j * ln (real k) + d \<le> ln (real b)"
    using lnK by linarith
  have d0: "0 \<le> d"
  proof -
    have "d = x * (1 - x)" by (simp add: d_def power2_eq_square algebra_simps)
    with x show ?thesis by simp
  qed
  have Lk: "L * ln (real k) = ln (real b)"
    using ln_k_bounds(1) by (simp add: L_def)
  have gap: "e * (real j * ln (real k)) \<le> d * (1 - e)"
  proof (cases "j = 0")
    case True
    with d0 e show ?thesis by simp
  next
    case j0: False
    then have "k ^ 1 \<le> k ^ j"
      by (intro power_increasing) (simp_all add: k_def)
    then have "real (k ^ 1) \<le> real (k ^ j)"
      by (simp only: of_nat_le_iff)
    then have "2 \<le> K" by (simp add: K_def k_def)
    then have xh: "x \<le> 1 / 2"
      unfolding x_def by (simp add: field_simps)
    have "d = x * (1 - x)" by (simp add: d_def power2_eq_square algebra_simps)
    moreover from xh x(1) have "x * (1 / 2) \<le> x * (1 - x)"
      by (intro mult_left_mono) simp_all
    ultimately have "x / 2 \<le> d" by simp
    with x(3) have d41: "1 / 2 ^ 41 \<le> d" by simp
    have "d * (1 / 2) \<le> d * (1 - e)"
      using d0 e(2) by (intro mult_left_mono) simp_all
    moreover from d41 have "1 / 2 ^ 42 \<le> d * (1 / 2)" by simp
    ultimately have lower: "1 / 2 ^ 42 \<le> d * (1 - e)" by (rule order_trans [rotated])
    have "real j * ln (real k) \<le> 4 * 10"
    proof -
      from j4 have "real j \<le> 4" by simp
      then show ?thesis
        using ln_k_bounds by (intro mult_mono) simp_all
    qed
    then have "e * (real j * ln (real k)) \<le> e * (4 * 10)"
      using e(1) by (intro mult_left_mono) simp_all
    with e(3) lower show ?thesis by simp
  qed
  have "real j * ln (real k) \<le> (real j * ln (real k) + d) * (1 - e)"
    using gap by (simp add: algebra_simps)
  also have "\<dots> \<le> ln (real b) * (1 - e)"
    using lnb e(2) by (intro mult_right_mono) simp_all
  also have "\<dots> = (L - L * e) * ln (real k)"
    using Lk by (simp add: algebra_simps)
  finally have low: "real j \<le> L - L * e"
    using ln_k_bounds(1) by simp
  from dq pos have "\<bar>q b - L\<bar> \<le> L / 2 ^ 48"
    by (simp only: double_quotient_def L_def)
  moreover have "L / 2 ^ 48 = L * e"
    by (simp add: e_def)
  ultimately have "L - L * e \<le> q b"
    by linarith
  with low show ?thesis by linarith
qed

lemma log_index_band:
  assumes "double_quotient q" and "k ^ i \<le> bytes" and "bytes < k ^ Suc i" and "i < 4"
  shows "log_index q bytes = int i"
proof -
  have "0 < k ^ i" by (simp add: k_def)
  with assms(2) have pos: "0 < bytes" by linarith
  from assms(4) have "i \<le> 4" "Suc i \<le> 4" by simp_all
  from quotient_above [OF assms(1,2) \<open>i \<le> 4\<close>] quotient_below [OF assms(1) pos assms(3) \<open>Suc i \<le> 4\<close>]
  have "real i \<le> q bytes" "q bytes < real i + 1" by simp_all
  then show ?thesis
    unfolding log_index_def by (simp add: floor_eq_iff)
qed

lemma log_index_beyond:
  assumes "double_quotient q" and "k ^ 4 \<le> bytes"
  shows "4 \<le> log_index q bytes"
proof -
  from quotient_above [OF assms, simplified] have "4 \<le> q bytes" by simp
  then show ?thesis
    unfolding log_index_def by (simp add: le_floor_iff)
qed

subsection \<open>Reading the text back\<close>

lemma digit_facts:
  assumes "d < 10"
  shows "is_digit (digit d)" "unat (digit d) - 48 = d" "digit d \<noteq> 46" "digit d \<noteq> 32"
proof -
  from assms have "d \<in> {0, 1, 2, 3, 4, 5, 6, 7, 8, 9}" by auto
  then show "is_digit (digit d)" "unat (digit d) - 48 = d" "digit d \<noteq> 46" "digit d \<noteq> 32"
    by (auto simp: digit_def is_digit_def)
qed

lemma read_nat_snoc: "read_nat (ds @ [c]) = 10 * read_nat ds + (unat c - 48)"
  by (simp add: read_nat_def)

lemma digits_facts:
  "list_all is_digit (digits n) \<and> read_nat (digits n) = n \<and> 46 \<notin> set (digits n) \<and>
   32 \<notin> set (digits n) \<and> digits n \<noteq> []"
proof (induction n rule: digits.induct)
  case (1 n)
  show ?case
  proof (cases "n < 10")
    case True
    with digit_facts [of n] show ?thesis
      by (simp add: digits.simps [of n] read_nat_def)
  next
    case False
    with 1 have ih: "list_all is_digit (digits (n div 10))" "read_nat (digits (n div 10)) = n div 10"
      "46 \<notin> set (digits (n div 10))" "32 \<notin> set (digits (n div 10))"
      by simp_all
    have "n mod 10 < 10" by simp
    from digit_facts [OF this] ih False show ?thesis
      by (simp add: digits.simps [of n] read_nat_snoc)
  qed
qed









lemma number_string_no_space: "32 \<notin> set (number_string n)"
proof -
  have "n mod 100 div 10 < 10" "n mod 10 < 10" by simp_all
  from digit_facts(4) [OF this(1)] digit_facts(4) [OF this(2)] digits_facts [of "n div 100"]
  show ?thesis
    by (auto simp: number_string_def dot_def)
qed




subsection \<open>Units, rounding and order\<close>







lemma sizes_nth:
  "i < 4 \<Longrightarrow> sizes_at (int i) = Some ([js ''Bytes'', js ''KB'', js ''MB'', js ''GB''] ! i)"
  by (simp add: sizes_at_def sizes_def)

lemma formatFileSize_band:
  assumes "double_quotient q" and "1024 ^ i \<le> bytes" and "bytes < 1024 ^ Suc i" and "i < 4"
  shows "formatFileSize q bytes =
    number_string (toFixed2 bytes (1024 ^ i)) @ js '' '' @
    [js ''Bytes'', js ''KB'', js ''MB'', js ''GB''] ! i"
proof -
  from assms(2,3) have "k ^ i \<le> bytes" "bytes < k ^ Suc i"
    by (simp_all add: k_def)
  with assms(1) have idx: "log_index q bytes = int i"
    using assms(4) by (intro log_index_band)
  have "(0::nat) < 1024 ^ i" by simp
  with assms(2) have "bytes \<noteq> 0" by linarith
  with idx sizes_nth [OF assms(4)] show ?thesis
    by (simp add: formatFileSize_def concat_string_def k_def)
qed

lemma band_exists:
  assumes "0 < (bytes::nat)" and "bytes < 1024 ^ 4"
  shows "\<exists>i<4. 1024 ^ i \<le> bytes \<and> bytes < 1024 ^ Suc i"
proof -
  consider "bytes < 1024" | "1024 \<le> bytes" "bytes < (1024::nat) ^ 2"
    | "(1024::nat) ^ 2 \<le> bytes" "bytes < (1024::nat) ^ 3" | "(1024::nat) ^ 3 \<le> bytes"
    by linarith
  then show ?thesis
  proof cases
    case 1
    with assms(1) show ?thesis by (intro exI [of _ 0]) simp
  next
    case 2
    then show ?thesis by (intro exI [of _ 1]) simp
  next
    case 3
    then show ?thesis by (intro exI [of _ 2]) (simp add: numeral_2_eq_2)
  next
    case 4
    with assms(2) show ?thesis by (intro exI [of _ 3]) (simp add: numeral_3_eq_3)
  qed
qed

lemma formatFileSize_0: "formatFileSize q 0 = js ''0 Bytes''"
  by (simp add: formatFileSize_def)

lemmas number_eval = toFixed2_def number_string_def digits.simps digit_def dot_def js_def



lemma formatFileSize_1048576: "double_quotient q \<Longrightarrow> formatFileSize q 1048576 = js ''1 MB''"
  using formatFileSize_band [of q 2 1048576] by (simp add: number_eval)







lemma ln_k_ge_1: "1 \<le> ln (real k)"
proof -
  have "exp (1::real) \<le> 3" by (rule exp_le)
  also have "(3::real) \<le> real k" by (simp add: k_def)
  finally show ?thesis by (simp add: ln_ge_iff k_def)
qed

lemma late_error:
  "\<bar>5 - ln (real (2 ^ 50 - 1)) / ln (real k)\<bar> \<le> ln (real (2 ^ 50 - 1)) / ln (real k) / 2 ^ 48"
proof -
  define b :: real where "b = 2 ^ 50 - 1"
  define L where "L = ln b / ln (real k)"
  have rb: "real (2 ^ 50 - 1) = b" by (simp add: b_def)
  have bpos: "0 < b" by (simp add: b_def)
  have "ln (b + 1) - ln b = ln ((b + 1) / b)"
    using bpos by (simp add: ln_div)
  also have "(b + 1) / b = 1 + 1 / b"
    using bpos by (simp add: field_simps)
  also have "ln (1 + 1 / b) \<le> 1 / b"
    using bpos by (intro ln_add_one_self_le_self) simp
  also have "1 / b \<le> 1 / 2 ^ 49" by (simp add: b_def)
  finally have gap: "ln (b + 1) - ln b \<le> 1 / 2 ^ 49" .
  have "b + 1 = real (k ^ 5)" by (simp add: b_def k_def)
  then have "ln (b + 1) = real 5 * ln (real k)"
    by (simp only: ln_power_k)
  then have lnb1: "ln (b + 1) = 5 * ln (real k)" by simp
  with gap have g: "5 * ln (real k) - ln b \<le> 1 / 2 ^ 49" by simp
  have Lk: "L * ln (real k) = ln b"
    using ln_k_bounds(1) by (simp add: L_def)
  have up: "5 - L \<le> 1 / 2 ^ 49"
  proof -
    have "(5 - L) * ln (real k) = 5 * ln (real k) - ln b"
      using Lk by (simp add: algebra_simps)
    with g have "(5 - L) * ln (real k) \<le> 1 / 2 ^ 49" by simp
    moreover have "(5 - L) * 1 \<le> (5 - L) * ln (real k)" if "0 \<le> 5 - L"
      using that ln_k_ge_1 by (intro mult_left_mono) simp_all
    ultimately show ?thesis by (cases "0 \<le> 5 - L") simp_all
  qed
  have lo: "0 \<le> 5 - L"
  proof -
    have "ln b \<le> ln (b + 1)" using bpos by simp
    also have "ln (b + 1) = 5 * ln (real k)" by (rule lnb1)
    finally have "L * ln (real k) \<le> 5 * ln (real k)" by (simp only: Lk)
    then show ?thesis using ln_k_bounds(1) by simp
  qed
  have L4: "4 \<le> L"
  proof -
    have "real (k ^ 4) \<le> b" by (simp add: b_def k_def)
    then have "ln (real (k ^ 4)) \<le> ln b" by (simp add: k_def)
    then have "4 * ln (real k) \<le> L * ln (real k)"
      by (simp only: ln_power_k Lk)
    then show ?thesis using ln_k_bounds(1) by simp
  qed
  then have "4 / 2 ^ 48 \<le> L / 2 ^ 48" by (simp add: divide_right_mono)
  moreover have "(1::real) / 2 ^ 49 \<le> 4 / 2 ^ 48" by simp
  ultimately have "\<bar>5 - L\<bar> \<le> L / 2 ^ 48"
    using up lo by linarith
  then show ?thesis by (simp only: rb L_def)
qed

lemma double_quotient_late: "double_quotient late_quotient"
  unfolding double_quotient_def
proof (intro conjI allI impI)
  fix b :: nat
  assume "0 < b"
  show "\<bar>late_quotient b - ln (real b) / ln (real k)\<bar> \<le> ln (real b) / ln (real k) / 2 ^ 48"
  proof (cases "b = 2 ^ 50 - 1")
    case True
    then have v: "late_quotient b = 5" by (simp add: late_quotient_def)
    show ?thesis by (simp only: v) (simp only: True late_error)
  next
    case False
    with quotient_nonneg [OF \<open>0 < b\<close>] show ?thesis by (simp add: late_quotient_def)
  qed
next
  fix i :: nat
  assume "i \<le> 4"
  then have "k ^ i \<le> k ^ 4"
    by (intro power_increasing) (simp_all add: k_def)
  then have "k ^ i \<noteq> 2 ^ 50 - 1" by (simp add: k_def)
  then show "real i \<le> late_quotient (k ^ i)"
    using ln_k_bounds(1) by (simp add: late_quotient_def ln_realpow)
qed



text \<open>
  Claim C9. Whatever the roundings of the logarithm within \<open>double_quotient\<close>: for
  every size below \<open>1024^4\<close> the text is a number, a space and one of Bytes, KB, MB,
  GB, and for a positive one the index is inside the table; for every size of at
  least \<open>1024^4\<close> bytes the index is 4 or more, \<open>sizes[i]\<close> is \<open>undefined\<close>, and the
  text is a number followed by the word "undefined" in place of a unit.
\<close>

theorem formatFileSize_unit_table:
  assumes "double_quotient q"
  shows "(bytes < 1024 ^ 4 \<longrightarrow>
      (\<exists>number unit. unit \<in> {js ''Bytes'', js ''KB'', js ''MB'', js ''GB''} \<and>
         32 \<notin> set number \<and> formatFileSize q bytes = number @ js '' '' @ unit)) \<and>
   (0 < bytes \<and> bytes < 1024 ^ 4 \<longrightarrow>
      0 \<le> log_index q bytes \<and> log_index q bytes < 4 \<and>
      (\<exists>unit. unit \<in> {js ''Bytes'', js ''KB'', js ''MB'', js ''GB''} \<and>
         sizes_at (log_index q bytes) = Some unit)) \<and>
   (1024 ^ 4 \<le> bytes \<longrightarrow>
      4 \<le> log_index q bytes \<and> sizes_at (log_index q bytes) = None \<and>
      (\<exists>number. 32 \<notin> set number \<and> formatFileSize q bytes = number @ js '' undefined''))"
proof -
  have inside: "0 \<le> log_index q bytes \<and> log_index q bytes < 4 \<and>
      (\<exists>unit. unit \<in> {js ''Bytes'', js ''KB'', js ''MB'', js ''GB''} \<and>
         sizes_at (log_index q bytes) = Some unit) \<and>
      (\<exists>number unit. unit \<in> {js ''Bytes'', js ''KB'', js ''MB'', js ''GB''} \<and>
         32 \<notin> set number \<and> formatFileSize q bytes = number @ js '' '' @ unit)"
    if h: "0 < bytes" "bytes < 1024 ^ 4"
  proof -
    from h obtain i where i: "i < 4" "1024 ^ i \<le> bytes" "bytes < 1024 ^ Suc i"
      using band_exists by blast
    from i have "k ^ i \<le> bytes" "bytes < k ^ Suc i"
      by (simp_all add: k_def)
    with assms i(1) have idx: "log_index q bytes = int i"
      by (intro log_index_band)
    from i(1) have "i \<in> {0, 1, 2, 3}" by auto
    then have u: "[js ''Bytes'', js ''KB'', js ''MB'', js ''GB''] ! i \<in>
        {js ''Bytes'', js ''KB'', js ''MB'', js ''GB''}"
      by auto
    from idx i(1) have "0 \<le> log_index q bytes" "log_index q bytes < 4"
      by simp_all
    moreover from u idx sizes_nth [OF i(1)]
    have "\<exists>unit. unit \<in> {js ''Bytes'', js ''KB'', js ''MB'', js ''GB''} \<and>
        sizes_at (log_index q bytes) = Some unit"
      by metis
    moreover from u number_string_no_space [of "toFixed2 bytes (1024 ^ i)"]
      formatFileSize_band [OF assms i(2,3,1)]
    have "\<exists>number unit. unit \<in> {js ''Bytes'', js ''KB'', js ''MB'', js ''GB''} \<and>
        32 \<notin> set number \<and> formatFileSize q bytes = number @ js '' '' @ unit"
      by metis
    ultimately show ?thesis by blast
  qed
  have zero: "\<exists>number unit. unit \<in> {js ''Bytes'', js ''KB'', js ''MB'', js ''GB''} \<and>
      32 \<notin> set number \<and> formatFileSize q 0 = number @ js '' '' @ unit"
  proof -
    have "formatFileSize q 0 = [48] @ js '' '' @ js ''Bytes''"
      by (simp add: formatFileSize_0 js_def)
    moreover have "(32::jschar) \<notin> set [48]" by simp
    ultimately show ?thesis by blast
  qed
  have beyond: "4 \<le> log_index q bytes \<and> sizes_at (log_index q bytes) = None \<and>
      (\<exists>number. 32 \<notin> set number \<and> formatFileSize q bytes = number @ js '' undefined'')"
    if h: "1024 ^ 4 \<le> bytes"
  proof -
    from h have "k ^ 4 \<le> bytes" by (simp add: k_def)
    with assms have i4: "4 \<le> log_index q bytes"
      by (rule log_index_beyond)
    then have none: "sizes_at (log_index q bytes) = None"
      by (simp add: sizes_at_def sizes_def)
    from h have "bytes \<noteq> 0" by simp
    with none have "formatFileSize q bytes =
        number_string (toFixed2 (bytes * k ^ nat (- log_index q bytes)) (k ^ nat (log_index q bytes))) @
        js '' undefined''"
      by (simp add: formatFileSize_def concat_string_def js_def Let_def)
    with number_string_no_space
    have "\<exists>number. 32 \<notin> set number \<and> formatFileSize q bytes = number @ js '' undefined''"
      by blast
    with i4 none show ?thesis by blast
  qed
  show ?thesis
  proof (intro conjI impI)
    assume "bytes < 1024 ^ 4"
    then show "\<exists>number unit. unit \<in> {js ''Bytes'', js ''KB'', js ''MB'', js ''GB''} \<and>
        32 \<notin> set number \<and> formatFileSize q bytes = number @ js '' '' @ unit"
      using inside zero by (cases "bytes = 0") simp_all
  next
    assume "0 < bytes \<and> bytes < 1024 ^ 4"
    with inside show "0 \<le> log_index q bytes" "log_index q bytes < 4"
      "\<exists>unit. unit \<in> {js ''Bytes'', js ''KB'', js ''MB'', js ''GB''} \<and>
        sizes_at (log_index q bytes) = Some unit"
      by blast+
  next
    assume "1024 ^ 4 \<le> bytes"
    with beyond show "4 \<le> log_index q bytes" "sizes_at (log_index q bytes) = None"
      "\<exists>number. 32 \<notin> set number \<and> formatFileSize q bytes = number @ js '' undefined''"
      by blast+
  qed
qed

theorem formatFileSize_unit_table_witness:
  "double_quotient late_quotient \<and> (1024::nat) ^ 4 \<le> 1125899906842623 \<and>
   log_index late_quotient 1125899906842623 = 5 \<and>
   sizes_at (log_index late_quotient 1125899906842623) = None \<and>
   formatFileSize late_quotient 1125899906842623 = js ''1 undefined'' \<and>
   (0::nat) < 1048576 \<and> (1048576::nat) < 1024 ^ 4 \<and>
   log_index late_quotient 1048576 < 4 \<and>
   formatFileSize late_quotient 1048576 = js ''1 MB'' \<and>
   (\<exists>number. 32 \<notin> set number \<and>
      formatFileSize late_quotient 1125899906842623 = number @ js '' undefined'')"
proof -
  note t1 = formatFileSize_unit_table [OF double_quotient_late, of 1125899906842623]
  note t2 = formatFileSize_unit_table [OF double_quotient_late, of 1048576]
  have h1: "(1024::nat) ^ 4 \<le> 1125899906842623" by simp
  have h2: "(0::nat) < 1048576 \<and> (1048576::nat) < 1024 ^ 4" by simp
  have idx: "log_index late_quotient 1125899906842623 = 5"
    by (simp add: log_index_def late_quotient_def)
  have f: "formatFileSize late_quotient 1125899906842623 = js ''1 undefined''"
    by (simp add: formatFileSize_def idx sizes_at_def sizes_def concat_string_def k_def number_eval)
  note m = formatFileSize_1048576 [OF double_quotient_late]
  from t1 t2 h1 h2 idx f m double_quotient_late show ?thesis by blast
qed

section \<open>Properties of the lifecycle controller\<close>

subsection \<open>Validation\<close>

lemma analyzeVideo_begin_no_file:
  "analyzeVideo_begin None ty p st =
     Returned (st\<lparr>toasts := toasts st @ [ToastError (Str (js ''Please select a video file first''))]\<rparr>)"
  by (simp add: analyzeVideo_begin_def)

lemma handleAnalyze_begin_invalid:
  "selectedFile st = None \<or> analysisType st = [] \<Longrightarrow>
   handleAnalyze_begin st =
     Returned (st\<lparr>error := Some (js ''Please select a video file and analysis type'')\<rparr>)"
  by (auto simp: handleAnalyze_begin_def split: option.splits)

lemma handleAnalyze_invalid:
  "selectedFile st = None \<or> analysisType st = [] \<Longrightarrow>
   calls (handleAnalyze conv outcome st) = calls st \<and>
   loading (handleAnalyze conv outcome st) = loading st \<and>
   error (handleAnalyze conv outcome st) = Some (js ''Please select a video file and analysis type'')"
  by (simp add: handleAnalyze_def handleAnalyze_begin_invalid)

text \<open>
  Claim C1. \<open>handleAnalyze\<close> rejects an absent file and an empty analysis type alike
  (\<open>handleAnalyze_invalid\<close>), and \<open>analyzeVideo\<close> rejects an absent file
  (\<open>analyzeVideo_begin_no_file\<close>). \<open>analyzeVideo\<close> has no check of the analysis type:
  called with the file \<open>clip.mp4\<close> and the empty analysis type it shows no message,
  sets \<open>isAnalyzing\<close>, starts the timer and issues the request.
\<close>

theorem analyzeVideo_empty_type_issues_call:
  "analyzeVideo_begin (Some clip) (js '''') None useVideoAnalysis =
     Awaiting (useVideoAnalysis\<lparr>isAnalyzing := True, progressInterval := Some 500,
       requests := [\<lparr>url = js ''http://localhost:8000/analyze-video'', http_method = js ''POST'',
         headers = [],
         form = [(js ''video_file'', FileValue clip), (js ''analysis_type'', TextValue (js ''''))]\<rparr>]\<rparr>)"
  by (simp add: analyzeVideo_begin_def formData_def useVideoAnalysis_def js_def)

lemma trim_empty_iff: "trim s = [] \<longleftrightarrow> (\<forall>c \<in> set s. is_whitespace c)"
proof
  assume "trim s = []"
  then have all: "\<forall>c \<in> set (dropWhile is_whitespace s). is_whitespace c"
    by (simp add: trim_def dropWhile_eq_Nil_conv)
  have "dropWhile is_whitespace s = []"
  proof (rule ccontr)
    assume ne: "dropWhile is_whitespace s \<noteq> []"
    then have "\<not> is_whitespace (hd (dropWhile is_whitespace s))"
      by (rule hd_dropWhile)
    moreover from ne have "hd (dropWhile is_whitespace s) \<in> set (dropWhile is_whitespace s)"
      by (rule hd_in_set)
    ultimately show False using all by blast
  qed
  then show "\<forall>c \<in> set s. is_whitespace c"
    by (simp add: dropWhile_eq_Nil_conv)
next
  assume "\<forall>c \<in> set s. is_whitespace c"
  then show "trim s = []"
    by (auto simp: trim_def dest: set_dropWhileD)
qed

lemma blank_prompt_not_truthy:
  "customPrompt = None \<or> (\<exists>s. customPrompt = Some s \<and> trim s = []) \<Longrightarrow>
   \<not> truthy (trimmed_prompt customPrompt)"
  by (auto simp: trimmed_prompt_def)

text \<open>
  Claim C4. Whenever \<open>analyzeVideo\<close> is called with the analysis type "custom" and a
  prompt that is absent or empty after trimming, it shows an error message and
  returns: no request is issued and \<open>isAnalyzing\<close> is left as it was, whatever happens
  afterwards.
\<close>

theorem custom_prompt_required:
  assumes "customPrompt = None \<or> (\<exists>s. customPrompt = Some s \<and> trim s = [])"
  shows "\<exists>message. message \<noteq> [] \<and>
     analyzeVideo_begin file (js ''custom'') customPrompt st =
       Returned (st\<lparr>toasts := toasts st @ [ToastError (Str message)]\<rparr>) \<and>
     analyzeVideo file (js ''custom'') customPrompt events st =
       st\<lparr>toasts := toasts st @ [ToastError (Str message)]\<rparr> \<and>
     requests (analyzeVideo file (js ''custom'') customPrompt events st) = requests st \<and>
     isAnalyzing (analyzeVideo file (js ''custom'') customPrompt events st) = isAnalyzing st"
proof (cases "file")
  case None
  then show ?thesis
    by (intro exI [of _ "js ''Please select a video file first''"])
       (simp add: analyzeVideo_def analyzeVideo_begin_def js_def)
next
  case (Some f)
  with blank_prompt_not_truthy [OF assms] show ?thesis
    by (intro exI [of _ "js ''Please enter a custom prompt for analysis''"])
       (simp add: analyzeVideo_def analyzeVideo_begin_def js_def)
qed

theorem custom_prompt_required_witness:
  "trim (js '' '' @ [0x09, 0x0A, 0xA0]) = [] \<and>
   analyzeVideo (Some clip) (js ''custom'') (Some (js '' '' @ [0x09, 0x0A, 0xA0]))
     [Settles (JsonBody (Obj [(js ''success'', Bool True)]))] useVideoAnalysis =
     useVideoAnalysis\<lparr>toasts :=
       [ToastError (Str (js ''Please enter a custom prompt for analysis''))]\<rparr> \<and>
   requests (analyzeVideo (Some clip) (js ''custom'') (Some (js '' '' @ [0x09, 0x0A, 0xA0]))
     [Settles (JsonBody (Obj [(js ''success'', Bool True)]))] useVideoAnalysis) = []"
proof -
  have blank: "trim (js '' '' @ [0x09, 0x0A, 0xA0]) = []"
    by (simp add: trim_def is_whitespace_def js_def)
  then have "Some (js '' '' @ [0x09, 0x0A, 0xA0]) = None \<or>
      (\<exists>s. Some (js '' '' @ [0x09, 0x0A, 0xA0]) = Some s \<and> trim s = [])"
    by simp
  from custom_prompt_required [OF this, of "Some clip" useVideoAnalysis
      "[Settles (JsonBody (Obj [(js ''success'', Bool True)]))]"] blank
  show ?thesis
    by (auto simp: analyzeVideo_def analyzeVideo_begin_def trimmed_prompt_def
        useVideoAnalysis_def js_def)
qed

subsection \<open>The progress timer\<close>

lemma settle_clears_interval:
  "outcome \<noteq> FetchRejects \<Longrightarrow> progressInterval (analyzeVideo_settle ty outcome st) = None"
  by (cases outcome)
     (auto simp: analyzeVideo_settle_def finally_block_def catch_block_def after_fetch_def
        on_data_def split: sum.splits)

lemma tick_without_interval: "progressInterval st = None \<Longrightarrow> progress_tick r st = st"
  by (simp add: progress_tick_def)

lemma step_keeps_interval_cleared:
  "progressInterval st = None \<Longrightarrow> progressInterval (step ty st ev) = None"
proof (cases ev)
  case (Tick r)
  assume "progressInterval st = None"
  with Tick show ?thesis by (simp add: progress_tick_def)
next
  case (Settles outcome)
  assume "progressInterval st = None"
  with Settles show ?thesis
    by (cases outcome)
       (auto simp: analyzeVideo_settle_def finally_block_def catch_block_def after_fetch_def
          on_data_def split: sum.splits)
next
  case ResetFires
  assume "progressInterval st = None"
  with ResetFires show ?thesis by (simp add: reset_progress_def split: list.splits)
qed

lemma interval_stays_cleared:
  "progressInterval st = None \<Longrightarrow> progressInterval (foldl (step ty) st evs) = None"
  by (induction evs arbitrary: st) (simp_all add: step_keeps_interval_cleared)

lemma ticks_after_clear:
  "progressInterval st = None \<Longrightarrow> foldl (step ty) st (map Tick rs) = st"
  by (induction rs) (simp_all add: tick_without_interval)

text \<open>
  Claim C2. When \<open>fetch\<close> resolves, the timer is cleared whatever the body is
  (\<open>settle_clears_interval\<close>) and never fires again (\<open>interval_stays_cleared\<close>).
  When \<open>fetch\<close> rejects, \<open>clearInterval\<close> is skipped: the call ends with
  \<open>isAnalyzing\<close> false and the network error result stored, the timer is still
  registered, and its next tick moves the progress from 0 to 5.
\<close>

theorem interval_survives_fetch_rejection:
  "isAnalyzing (analyzeVideo (Some clip) (js ''technical_analysis'') None
      [Settles FetchRejects] useVideoAnalysis) = False \<and>
   result (analyzeVideo (Some clip) (js ''technical_analysis'') None
      [Settles FetchRejects] useVideoAnalysis) = network_error_result (js ''technical_analysis'') \<and>
   progressInterval (analyzeVideo (Some clip) (js ''technical_analysis'') None
      [Settles FetchRejects] useVideoAnalysis) = Some 500 \<and>
   progress (analyzeVideo (Some clip) (js ''technical_analysis'') None
      [Settles FetchRejects] useVideoAnalysis) = 0 \<and>
   progress (analyzeVideo (Some clip) (js ''technical_analysis'') None
      [Settles FetchRejects, Tick (1 / 2)] useVideoAnalysis) = 5"
  by (simp add: analyzeVideo_def analyzeVideo_begin_def analyzeVideo_settle_def catch_block_def
      finally_block_def progress_tick_def useVideoAnalysis_def js_def)

lemma begin_progress:
  "analyzeVideo_begin file ty customPrompt st = Awaiting st' \<Longrightarrow>
   progress st' = 0 \<and> progressInterval st' = Some 500 \<and> isAnalyzing st' = True"
  by (auto simp: analyzeVideo_begin_def split: option.splits if_splits)

lemma tick_increases:
  "0 \<le> r \<Longrightarrow> progress st < 90 \<Longrightarrow> progress st \<le> progress (progress_tick r st)"
  by (simp add: progress_tick_def)

lemma tick_below_100:
  "0 \<le> r \<Longrightarrow> r < 1 \<Longrightarrow> progress st < 100 \<Longrightarrow> progress (progress_tick r st) < 100"
  by (simp add: progress_tick_def)

lemma ticks_below_100:
  "\<forall>r \<in> set rs. 0 \<le> r \<and> r < 1 \<Longrightarrow> progress st < 100 \<Longrightarrow>
   progress (foldl (step ty) st (map Tick rs)) < 100"
  by (induction rs arbitrary: st) (simp_all add: tick_below_100)

lemma settle_snaps_100:
  "outcome \<noteq> FetchRejects \<Longrightarrow> progress (analyzeVideo_settle ty outcome st) = 100"
  by (cases outcome)
     (auto simp: analyzeVideo_settle_def finally_block_def catch_block_def after_fetch_def
        on_data_def split: sum.splits)

lemma reset_after_finally: "progress (reset_progress (finally_block st)) = 0"
  by (cases "timeouts st") (simp_all add: reset_progress_def finally_block_def)

lemma reset_after_settle:
  "progress (reset_progress (analyzeVideo_settle ty outcome st)) = 0"
  by (simp add: analyzeVideo_settle_def reset_after_finally)

text \<open>
  Claim C3. The progress starts at 0 (\<open>begin_progress\<close>), grows with every tick while
  below 90 (\<open>tick_increases\<close>), stays below 100 (\<open>ticks_below_100\<close>), is set to 100
  when \<open>fetch\<close> resolves (\<open>settle_snaps_100\<close>) and to 0 by the timeout registered on
  leaving (\<open>reset_after_settle\<close>). It is compared with 90 before the increment is
  added, not after: with \<open>Math.random() = 0.9375\<close> nine ticks take it to 84.375 and
  the tenth to 93.75, above 90, while the request is still in flight.
\<close>

theorem progress_overshoots_90:
  "isAnalyzing (analyzeVideo (Some clip) (js ''technical_analysis'') None
      (replicate 10 (Tick (15 / 16))) useVideoAnalysis) = True \<and>
   progress (analyzeVideo (Some clip) (js ''technical_analysis'') None
      (replicate 10 (Tick (15 / 16))) useVideoAnalysis) = 375 / 4 \<and>
   (90::real) < 375 / 4"
  by (simp add: analyzeVideo_def analyzeVideo_begin_def progress_tick_def useVideoAnalysis_def
      js_def numeral_eq_Suc)

subsection \<open>Transport failure\<close>

lemma settle_transport_failure:
  assumes "outcome = FetchRejects \<or> outcome = JsonRejects"
  shows "isAnalyzing (analyzeVideo_settle ty outcome st) = False"
    and "result (analyzeVideo_settle ty outcome st) = network_error_result ty"
    and "toasts (analyzeVideo_settle ty outcome st) = toasts st @
          [ToastError (Str (js ''Failed to analyze video. Please check your connection.''))]"
  using assms
  by (auto simp: analyzeVideo_settle_def finally_block_def catch_block_def after_fetch_def)

lemma toasts_tick: "toasts (progress_tick r st) = toasts st"
  by (simp add: progress_tick_def)

lemma toasts_ticks: "toasts (foldl (step ty) st (map Tick rs)) = toasts st"
  by (induction rs arbitrary: st) (simp_all add: toasts_tick)

text \<open>
  Claim C5, amended. When the call was issued and \<open>fetch\<close> rejects or the body cannot
  be decoded, whatever the timer did meanwhile, \<open>isAnalyzing\<close> goes from true to
  false, the stored result is \<open>{success: false, error: "Network error occurred",
  analysis_type}\<close>, and the message "Failed to analyze video. Please check your
  connection." is shown.
\<close>

theorem transport_failure_result:
  assumes "analyzeVideo_begin file ty customPrompt st = Awaiting st'"
    and "outcome = FetchRejects \<or> outcome = JsonRejects"
  shows "isAnalyzing st' = True \<and>
     isAnalyzing (analyzeVideo file ty customPrompt (map Tick rs @ [Settles outcome]) st) = False \<and>
     result (analyzeVideo file ty customPrompt (map Tick rs @ [Settles outcome]) st) =
       Obj [(js ''success'', Bool False), (js ''error'', Str (js ''Network error occurred'')),
            (js ''analysis_type'', Str ty)] \<and>
     toasts (analyzeVideo file ty customPrompt (map Tick rs @ [Settles outcome]) st) =
       toasts st @ [ToastError (Str (js ''Failed to analyze video. Please check your connection.''))]"
proof -
  from assms(1) have started: "isAnalyzing st' = True" "toasts st' = toasts st"
    by (auto simp: analyzeVideo_begin_def split: option.splits if_splits)
  have run: "analyzeVideo file ty customPrompt (map Tick rs @ [Settles outcome]) st =
      analyzeVideo_settle ty outcome (foldl (step ty) st' (map Tick rs))"
    using assms(1) by (simp add: analyzeVideo_def)
  from started run settle_transport_failure [OF assms(2)] show ?thesis
    by (simp add: toasts_ticks network_error_result_def)
qed

theorem transport_failure_result_witness:
  "analyzeVideo_begin (Some clip) (js ''technical_analysis'') None useVideoAnalysis =
     Awaiting (useVideoAnalysis\<lparr>isAnalyzing := True, progressInterval := Some 500,
       requests := [\<lparr>url = js ''http://localhost:8000/analyze-video'', http_method = js ''POST'',
         headers = [], form = formData clip (js ''technical_analysis'') None\<rparr>]\<rparr>) \<and>
   result (analyzeVideo (Some clip) (js ''technical_analysis'') None
      (map Tick [1 / 2] @ [Settles JsonRejects]) useVideoAnalysis) =
     Obj [(js ''success'', Bool False), (js ''error'', Str (js ''Network error occurred'')),
          (js ''analysis_type'', Str (js ''technical_analysis''))] \<and>
   toasts (analyzeVideo (Some clip) (js ''technical_analysis'') None
      (map Tick [1 / 2] @ [Settles JsonRejects]) useVideoAnalysis) =
     [ToastError (Str (js ''Failed to analyze video. Please check your connection.''))] \<and>
   isAnalyzing (analyzeVideo (Some clip) (js ''technical_analysis'') None
      (map Tick [1 / 2] @ [Settles JsonRejects]) useVideoAnalysis) = False"
proof -
  have b: "analyzeVideo_begin (Some clip) (js ''technical_analysis'') None useVideoAnalysis =
     Awaiting (useVideoAnalysis\<lparr>isAnalyzing := True, progressInterval := Some 500,
       requests := [\<lparr>url = js ''http://localhost:8000/analyze-video'', http_method = js ''POST'',
         headers = [], form = formData clip (js ''technical_analysis'') None\<rparr>]\<rparr>)"
    by (simp add: analyzeVideo_begin_def useVideoAnalysis_def js_def)
  have o: "JsonRejects = FetchRejects \<or> JsonRejects = JsonRejects"
    by simp
  from transport_failure_result [OF b o, of "[1 / 2]"] b show ?thesis
    by (simp add: useVideoAnalysis_def)
qed

text \<open>
  Claim C5 as stated fails: after a rejected \<open>fetch\<close> the stored result is not
  \<open>{success: false, error: "network error", analysis_type}\<close>; its \<open>error\<close> is
  "Network error occurred".
\<close>

theorem network_error_text_counterexample:
  "result (analyzeVideo (Some clip) (js ''technical_analysis'') None
      [Settles FetchRejects] useVideoAnalysis) \<noteq>
     Obj [(js ''success'', Bool False), (js ''error'', Str (js ''network error'')),
          (js ''analysis_type'', Str (js ''technical_analysis''))] \<and>
   get_prop (result (analyzeVideo (Some clip) (js ''technical_analysis'') None
      [Settles FetchRejects] useVideoAnalysis)) (js ''error'') =
     Inr (Str (js ''Network error occurred''))"
  by (simp add: analyzeVideo_def analyzeVideo_begin_def analyzeVideo_settle_def catch_block_def
      finally_block_def network_error_result_def useVideoAnalysis_def js_def)

section \<open>Properties of the transport client and the application\<close>

lemma handleAnalyze_started:
  "selectedFile st = Some f \<Longrightarrow> analysisType st \<noteq> [] \<Longrightarrow>
   handleAnalyze conv outcome st =
     handleAnalyze_settle conv outcome
       (st\<lparr>loading := True, error := None, results := Null,
          calls := calls st @ [analyzeVideoFile_request f (analysisType st)]\<rparr>)"
  by (simp add: handleAnalyze_def handleAnalyze_begin_def)

lemma analyzeVideoFile_detail:
  "get_prop_opt body (js ''detail'') = Str d \<Longrightarrow> d \<noteq> [] \<Longrightarrow>
   analyzeVideoFile conv (BadStatus status body) = Inl d"
  by (simp add: analyzeVideoFile_def js_or_def ToString_def)

lemma analyzeVideoFile_fallback:
  "\<not> truthy (error_detail outcome) \<Longrightarrow> outcome = NoResponse \<or> outcome = BadStatus status body \<Longrightarrow>
   analyzeVideoFile conv outcome = Inl (js ''Failed to analyze video'')"
  by (auto simp: analyzeVideoFile_def js_or_def ToString_def)

text \<open>
  Claim C6, amended. With a file and an analysis type selected, a response with a
  non-success status whose body has a \<open>detail\<close> that is a non-empty string makes that
  string the error message; a body whose \<open>detail\<close> is missing or falsy (the empty
  string among others) and a failure with no response make "Failed to analyze video"
  the message.
\<close>

theorem detail_becomes_message:
  assumes "selectedFile st = Some f" and "analysisType st \<noteq> []"
  shows "(get_prop_opt body (js ''detail'') = Str d \<and> d \<noteq> [] \<longrightarrow>
           error (handleAnalyze conv (BadStatus status body) st) = Some d) \<and>
         (\<not> truthy (get_prop_opt body (js ''detail'')) \<longrightarrow>
           error (handleAnalyze conv (BadStatus status body) st) = Some (js ''Failed to analyze video'')) \<and>
         error (handleAnalyze conv NoResponse st) = Some (js ''Failed to analyze video'')"
proof (intro conjI impI)
  assume "get_prop_opt body (js ''detail'') = Str d \<and> d \<noteq> []"
  then show "error (handleAnalyze conv (BadStatus status body) st) = Some d"
    by (simp add: handleAnalyze_started [OF assms] handleAnalyze_settle_def analyzeVideoFile_detail)
next
  assume "\<not> truthy (get_prop_opt body (js ''detail''))"
  then have "analyzeVideoFile conv (BadStatus status body) = Inl (js ''Failed to analyze video'')"
    by (intro analyzeVideoFile_fallback) simp_all
  then show "error (handleAnalyze conv (BadStatus status body) st) = Some (js ''Failed to analyze video'')"
    by (simp add: handleAnalyze_started [OF assms] handleAnalyze_settle_def js_def)
next
  have "analyzeVideoFile conv NoResponse = Inl (js ''Failed to analyze video'')"
    by (rule analyzeVideoFile_fallback [of _ 0 Null]) simp_all
  then show "error (handleAnalyze conv NoResponse st) = Some (js ''Failed to analyze video'')"
    by (simp add: handleAnalyze_started [OF assms] handleAnalyze_settle_def js_def)
qed

theorem detail_becomes_message_witness:
  "selectedFile ready = Some clip \<and> analysisType ready \<noteq> [] \<and>
   get_prop_opt (Obj [(js ''detail'', Str (js ''model unavailable''))]) (js ''detail'') =
     Str (js ''model unavailable'') \<and>
   error (handleAnalyze object_string (BadStatus 500 (Obj [(js ''detail'', Str (js ''model unavailable''))]))
     ready) = Some (js ''model unavailable'') \<and>
   \<not> truthy (get_prop_opt (Obj []) (js ''detail'')) \<and>
   error (handleAnalyze object_string (BadStatus 500 (Obj [])) ready) = Some (js ''Failed to analyze video'')"
proof -
  have f: "selectedFile ready = Some clip" and t: "analysisType ready \<noteq> []"
    by (simp_all add: ready_def js_def)
  have d: "get_prop_opt (Obj [(js ''detail'', Str (js ''model unavailable''))]) (js ''detail'') =
     Str (js ''model unavailable'') \<and> js ''model unavailable'' \<noteq> []"
    by (simp add: js_def)
  have u: "\<not> truthy (get_prop_opt (Obj []) (js ''detail''))"
    by simp
  from detail_becomes_message [OF f t, of "Obj [(js ''detail'', Str (js ''model unavailable''))]"
      "js ''model unavailable''" object_string 500]
    detail_becomes_message [OF f t, of "Obj []" "[]" object_string 500] f t d u
  show ?thesis
    by blast
qed

text \<open>
  Claim C6 as stated fails: for HTTP 500 with the body \<open>{"detail": ""}\<close> the field is
  there and its value is the empty string, and the message is "Failed to analyze
  video".
\<close>

theorem empty_detail_counterexample:
  "get_prop (Obj [(js ''detail'', Str [])]) (js ''detail'') = Inr (Str []) \<and>
   error (handleAnalyze object_string (BadStatus 500 (Obj [(js ''detail'', Str [])])) ready) =
     Some (js ''Failed to analyze video'') \<and>
   error (handleAnalyze object_string (BadStatus 500 (Obj [(js ''detail'', Str [])])) ready) \<noteq> Some []"
  by (simp add: handleAnalyze_def handleAnalyze_begin_def handleAnalyze_settle_def
      analyzeVideoFile_def js_or_def ToString_def ready_def js_def)

section \<open>Properties of the results renderer\<close>

lemma split_at_nonempty: "split_at sep cur s \<noteq> []"
  by (induction sep cur s rule: split_at.induct) auto

lemma join_Cons: "ps \<noteq> [] \<Longrightarrow> join (p # ps) sep = p @ sep @ join ps sep"
  by (cases ps) simp_all

lemma join_split_at: "join (split_at sep cur s) sep = cur @ s"
proof (induction sep cur s rule: split_at.induct)
  case (1 sep cur)
  show ?case by simp
next
  case (2 sep cur c cs)
  show ?case
  proof (cases "sep \<noteq> [] \<and> take (length sep) (c # cs) = sep")
    case True
    with 2 have ih: "join (split_at sep [] (drop (length sep) (c # cs))) sep =
        drop (length sep) (c # cs)"
      by simp
    have "sep @ drop (length sep) (c # cs) = c # cs"
      using True append_take_drop_id [of "length sep" "c # cs"] by simp
    with True ih show ?thesis
      by (simp add: join_Cons split_at_nonempty del: drop_Suc_Cons take_Suc_Cons)
  next
    case False
    with 2 show ?thesis by auto
  qed
qed

lemma join_concat:
  "ps \<noteq> [] \<Longrightarrow> join ps sep = concat (map (\<lambda>p. p @ sep) (butlast ps)) @ last ps"
  by (induction ps sep rule: join.induct) simp_all

lemma split_at_pieces:
  "c \<notin> set cur \<Longrightarrow> c \<notin> set (concat (split_at [c] cur s))"
proof (induction "[c]" cur s rule: split_at.induct)
  case (1 cur)
  then show ?case by simp
next
  case (2 cur d ds)
  then show ?case by (cases "d = c") simp_all
qed

lemma short_not_sublist: "length ys < length xs \<Longrightarrow> \<not> sublist xs ys"
  using sublist_length_le [of xs ys] by auto

lemma suffix_same_length:
  assumes "suffix xs (ys @ zs)" and "length xs = length zs"
  shows "xs = zs"
proof -
  from assms(1) obtain ws where "ys @ zs = ws @ xs"
    by (auto simp: suffix_def)
  with assms(2) show ?thesis by simp
qed

lemma split_at_leftmost:
  assumes "sep \<noteq> []" and "\<not> sublist sep (cur @ take (length sep - 1) s)"
  shows "(\<forall>p \<in> set (butlast (split_at sep cur s)). \<not> sublist sep (p @ butlast sep)) \<and>
    \<not> sublist sep (last (split_at sep cur s))"
  using assms
proof (induction sep cur s rule: split_at.induct)
  case (1 sep cur)
  then show ?case by simp
next
  case (2 sep cur c cs)
  let ?n = "length sep"
  from "2.prems"(1) have n: "0 < ?n" by simp
  show ?case
  proof (cases "take ?n (c # cs) = sep")
    case True
    let ?rest = "split_at sep [] (drop ?n (c # cs))"
    have rest: "?rest \<noteq> []" by (rule split_at_nonempty)
    have "length (take (?n - 1) (drop ?n (c # cs))) \<le> ?n - 1"
      by (simp del: drop_Suc_Cons)
    with n have "length (take (?n - 1) (drop ?n (c # cs))) < ?n"
      by linarith
    then have "\<not> sublist sep ([] @ take (?n - 1) (drop ?n (c # cs)))"
      by (simp add: short_not_sublist)
    with "2.IH"(1) "2.prems"(1) True
    have ih: "(\<forall>p \<in> set (butlast ?rest). \<not> sublist sep (p @ butlast sep)) \<and>
        \<not> sublist sep (last ?rest)"
      by blast
    have "butlast sep = take (?n - 1) sep"
      by (rule butlast_conv_take)
    also have "\<dots> = take (?n - 1) (take ?n (c # cs))"
      by (simp only: True)
    also have "\<dots> = take (?n - 1) (c # cs)"
      by (simp add: min_def)
    finally have "\<not> sublist sep (cur @ butlast sep)"
      using "2.prems"(2) by simp
    moreover have "split_at sep cur (c # cs) = cur # ?rest"
      using True "2.prems"(1) by simp
    ultimately show ?thesis
      using ih rest by simp
  next
    case False
    have step: "\<not> sublist sep ((cur @ [c]) @ take (?n - 1) cs)"
    proof -
      from n have t: "(cur @ [c]) @ take (?n - 1) cs = cur @ take ?n (c # cs)"
        by (cases ?n) simp_all
      show ?thesis
      proof (cases "?n \<le> length (c # cs)")
        case short: False
        then have "take ?n (c # cs) = take (?n - 1) (c # cs)" by simp
        with t "2.prems"(2) show ?thesis by simp
      next
        case True
        with n have "?n - 1 < length (c # cs)" by linarith
        then have "take (Suc (?n - 1)) (c # cs) = take (?n - 1) (c # cs) @ [(c # cs) ! (?n - 1)]"
          by (rule take_Suc_conv_app_nth)
        with n have snoc: "take ?n (c # cs) = take (?n - 1) (c # cs) @ [(c # cs) ! (?n - 1)]"
          by simp
        have len: "length sep = length (take ?n (c # cs))"
          using True by simp
        have "\<not> suffix sep (cur @ take ?n (c # cs))"
        proof
          assume "suffix sep (cur @ take ?n (c # cs))"
          from suffix_same_length [OF this len] False show False by simp
        qed
        moreover have "cur @ take ?n (c # cs) =
            (cur @ take (?n - 1) (c # cs)) @ [(c # cs) ! (?n - 1)]"
          by (simp only: snoc append_assoc)
        ultimately have "\<not> sublist sep (cur @ take ?n (c # cs))"
          using "2.prems"(2) by (simp only: sublist_snoc) simp
        with t show ?thesis by simp
      qed
    qed
    from False have "split_at sep cur (c # cs) = split_at sep (cur @ [c]) cs"
      by simp
    moreover from "2.IH"(2) False "2.prems"(1) step
    have "(\<forall>p \<in> set (butlast (split_at sep (cur @ [c]) cs)). \<not> sublist sep (p @ butlast sep)) \<and>
        \<not> sublist sep (last (split_at sep (cur @ [c]) cs))"
      by blast
    ultimately show ?thesis by simp
  qed
qed

lemma split_leftmost:
  assumes "sep \<noteq> []"
  shows "(\<forall>p \<in> set (butlast (split s sep)). \<not> sublist sep (p @ butlast sep)) \<and>
    \<not> sublist sep (last (split s sep))"
proof -
  have "length (take (length sep - 1) s) \<le> length sep - 1" by simp
  moreover from assms have "0 < length sep" by simp
  ultimately have "length (take (length sep - 1) s) < length sep" by linarith
  then have "\<not> sublist sep ([] @ take (length sep - 1) s)"
    by (simp add: short_not_sublist)
  from split_at_leftmost [OF assms this] assms show ?thesis
    by (simp add: split_def)
qed

lemma fragments_join:
  "m + length ls = n \<Longrightarrow>
   concat (map (\<lambda>il. case il of (lineIndex, line) \<Rightarrow>
      Text line # (if int lineIndex < int n - 1 then [Br] else [])) (enumerate m ls)) =
   join (map (\<lambda>line. [Text line]) ls) [Br]"
proof (induction ls arbitrary: m rule: induct_list012)
  case 1
  show ?case by simp
next
  case (2 p)
  then show ?case by simp
next
  case (3 p q ps)
  from "3.prems" have "Suc m + length (q # ps) = n" by simp
  from "3.IH" (2) [OF this] "3.prems" show ?case
    by simp
qed

lemma render_paragraph_join:
  "render_paragraph p = join (map (\<lambda>line. [Text line]) (split p (js ''\<newline>''))) [Br]"
proof -
  have "render_paragraph p = concat (map (\<lambda>il. case il of (lineIndex, line) \<Rightarrow>
      Text line # (if int lineIndex < int (length (split p (js ''\<newline>''))) - 1 then [Br] else []))
      (enumerate 0 (split p (js ''\<newline>''))))"
    by (simp add: render_paragraph_def fragment_def [abs_def])
  then show ?thesis
    by (simp add: fragments_join)
qed

lemma split_nonempty: "sep \<noteq> [] \<Longrightarrow> split s sep \<noteq> []"
  by (simp add: split_def split_at_nonempty)

lemma join_split: "sep \<noteq> [] \<Longrightarrow> join (split s sep) sep = s"
  by (simp add: split_def join_split_at)

lemma split_concat:
  "sep \<noteq> [] \<Longrightarrow> s = concat (map (\<lambda>p. p @ sep) (butlast (split s sep))) @ last (split s sep)"
  using join_concat [OF split_nonempty, of sep s sep] join_split [of sep s] by simp

lemma split_lines_no_newline: "line \<in> set (split p [c]) \<Longrightarrow> c \<notin> set line"
  using split_at_pieces [of c "[]" p] by (auto simp: split_def)

lemma render_paragraph_lines:
  "render_paragraph p =
     concat (map (\<lambda>line. [Text line, Br]) (butlast (split p [10]))) @ [Text (last (split p [10]))]"
proof -
  let ?ls = "split p [10]"
  have ne: "?ls \<noteq> []" by (rule split_nonempty) simp
  have "render_paragraph p = join (map (\<lambda>line. [Text line]) ?ls) [Br]"
    by (simp add: render_paragraph_join js_def)
  also have "\<dots> = concat (map (\<lambda>q. q @ [Br]) (butlast (map (\<lambda>line. [Text line]) ?ls))) @
      last (map (\<lambda>line. [Text line]) ?ls)"
    using ne by (intro join_concat) simp
  also have "\<dots> = concat (map (\<lambda>line. [Text line, Br]) (butlast ?ls)) @ [Text (last ?ls)]"
    using ne by (simp add: map_butlast [symmetric] last_map comp_def)
  finally show ?thesis .
qed

lemma formatResult_example:
  "formatResult (js ''Line1\<newline>\<newline>Line2a\<newline>Line2b'') =
     [[Text (js ''Line1'')], [Text (js ''Line2a''), Br, Text (js ''Line2b'')]]"
  by (simp add: formatResult_def render_paragraph_def fragment_def split_def js_def
      enumerate_eq_zip upt_rec)

text \<open>
  Claim C8. The text is cut into pieces at its blank lines, from the left: the pieces
  with a blank line after each but the last are the text, and no piece but the last
  holds a blank line or ends in a newline before its separator, nor does the last
  hold a blank line. \<open>formatResult\<close> gives one paragraph for each piece: the lines of
  the piece, none of which holds a newline, with a \<open><br />\<close> after each but the
  last. "Line1\n\nLine2a\nLine2b" gives two paragraphs, the second with a line
  break between "Line2a" and "Line2b".
\<close>

theorem formatResult_paragraphs:
  "(\<exists>pieces. pieces \<noteq> [] \<and>
      text = concat (map (\<lambda>p. p @ [10, 10]) (butlast pieces)) @ last pieces \<and>
      (\<forall>p \<in> set (butlast pieces). \<not> sublist [10, 10] (p @ [10])) \<and>
      \<not> sublist [10, 10] (last pieces) \<and>
      length (formatResult text) = length pieces \<and>
      (\<forall>i < length pieces. \<exists>lines. lines \<noteq> [] \<and>
         (\<forall>line \<in> set lines. 10 \<notin> set line) \<and>
         pieces ! i = concat (map (\<lambda>line. line @ [10]) (butlast lines)) @ last lines \<and>
         formatResult text ! i =
           concat (map (\<lambda>line. [Text line, Br]) (butlast lines)) @ [Text (last lines)])) \<and>
   formatResult (js ''Line1\<newline>\<newline>Line2a\<newline>Line2b'') =
     [[Text (js ''Line1'')], [Text (js ''Line2a''), Br, Text (js ''Line2b'')]]"
proof -
  let ?pieces = "split text [10, 10]"
  have nn: "js ''\<newline>\<newline>'' = [10, 10]" by (simp add: js_def)
  have f: "formatResult text = map render_paragraph ?pieces"
    by (simp add: formatResult_def nn)
  have ne: "?pieces \<noteq> []" by (rule split_nonempty) simp
  have whole: "text = concat (map (\<lambda>p. p @ [10, 10]) (butlast ?pieces)) @ last ?pieces"
    by (rule split_concat) simp
  have left: "(\<forall>p \<in> set (butlast ?pieces). \<not> sublist [10, 10] (p @ [10])) \<and>
      \<not> sublist [10, 10] (last ?pieces)"
    using split_leftmost [of "[10, 10]" "text"] by simp
  have paras: "\<forall>i < length ?pieces. \<exists>lines. lines \<noteq> [] \<and>
         (\<forall>line \<in> set lines. 10 \<notin> set line) \<and>
         ?pieces ! i = concat (map (\<lambda>line. line @ [10]) (butlast lines)) @ last lines \<and>
         formatResult text ! i =
           concat (map (\<lambda>line. [Text line, Br]) (butlast lines)) @ [Text (last lines)]"
  proof (intro allI impI)
    fix i
    assume i: "i < length ?pieces"
    let ?lines = "split (?pieces ! i) [10]"
    have "?lines \<noteq> []" by (rule split_nonempty) simp
    moreover have "\<forall>line \<in> set ?lines. 10 \<notin> set line"
      by (auto dest: split_lines_no_newline)
    moreover have "?pieces ! i = concat (map (\<lambda>line. line @ [10]) (butlast ?lines)) @ last ?lines"
      by (rule split_concat) simp
    moreover have "formatResult text ! i =
        concat (map (\<lambda>line. [Text line, Br]) (butlast ?lines)) @ [Text (last ?lines)]"
      using i by (simp add: f render_paragraph_lines)
    ultimately show "\<exists>lines. lines \<noteq> [] \<and>
         (\<forall>line \<in> set lines. 10 \<notin> set line) \<and>
         ?pieces ! i = concat (map (\<lambda>line. line @ [10]) (butlast lines)) @ last lines \<and>
         formatResult text ! i =
           concat (map (\<lambda>line. [Text line, Br]) (butlast lines)) @ [Text (last lines)]"
      by blast
  qed
  have len: "length (formatResult text) = length ?pieces"
    by (simp add: f)
  from ne whole left len paras formatResult_example show ?thesis
    by blast
qed

theorem formatResult_paragraphs_witness:
  "formatResult (js ''a\<newline>\<newline>b\<newline>\<newline>c'') =
     [[Text (js ''a'')], [Text (js ''b'')], [Text (js ''c'')]] \<and>
   (\<exists>pieces. pieces \<noteq> [] \<and>
      js ''a\<newline>\<newline>b\<newline>\<newline>c'' =
        concat (map (\<lambda>p. p @ [10, 10]) (butlast pieces)) @ last pieces \<and>
      \<not> sublist [10, 10] (last pieces) \<and>
      length (formatResult (js ''a\<newline>\<newline>b\<newline>\<newline>c'')) = length pieces)"
proof -
  have e: "formatResult (js ''a\<newline>\<newline>b\<newline>\<newline>c'') =
     [[Text (js ''a'')], [Text (js ''b'')], [Text (js ''c'')]]"
    by (simp add: formatResult_def render_paragraph_def fragment_def split_def js_def
        enumerate_eq_zip upt_rec)
  from formatResult_paragraphs [of "js ''a\<newline>\<newline>b\<newline>\<newline>c''"] e show ?thesis
    by blast
qed

lemma get_prop_total:
  "get_prop v key = Inr x \<Longrightarrow> \<exists>y. get_prop v key' = Inr y"
  by (cases v) simp_all

lemma ResultsDisplay_defined_iff:
  "(\<exists>r. ResultsDisplay payload = Inr r) \<longleftrightarrow>
   (\<exists>text. get_prop payload (js ''result'') = Inr (Str text))"
proof (cases payload)
  case (Obj kvs)
  show ?thesis
  proof (cases "map_of kvs (js ''result'')")
    case None
    with Obj show ?thesis by (simp add: ResultsDisplay_def)
  next
    case (Some v)
    with Obj show ?thesis by (cases v) (simp_all add: ResultsDisplay_def)
  qed
qed (simp_all add: ResultsDisplay_def)

lemma settle_failed_payload:
  "get_prop data (js ''success'') = Inr s \<Longrightarrow> \<not> truthy s \<Longrightarrow>
   result (analyzeVideo_settle ty (JsonBody data) st) = data \<and>
   isAnalyzing (analyzeVideo_settle ty (JsonBody data) st) = False"
  using get_prop_total [of data "js ''success''" s "js ''error''"]
  by (auto simp: analyzeVideo_settle_def on_data_def finally_block_def)

text \<open>
  Claim C10. The component renders exactly the payloads whose \<open>result\<close> is a string
  and throws a TypeError on all others; \<open>copyToClipboard\<close> reads the same field. The
  controller stores payloads without such a field: the body of a reply whose
  \<open>success\<close> is falsy, as it is, and the network error result, on which the
  component throws.
\<close>

theorem ResultsDisplay_needs_result:
  "((\<exists>r. ResultsDisplay payload = Inr r) \<longleftrightarrow>
      (\<exists>text. get_prop payload (js ''result'') = Inr (Str text))) \<and>
   copyToClipboard payload = get_prop payload (js ''result'') \<and>
   (get_prop data (js ''success'') = Inr s \<and> \<not> truthy s \<longrightarrow>
      result (analyzeVideo_settle ty (JsonBody data) st) = data) \<and>
   result (analyzeVideo_settle ty FetchRejects st) = network_error_result ty \<and>
   ResultsDisplay (network_error_result ty) = Inl TypeError"
proof -
  have "result (analyzeVideo_settle ty FetchRejects st) = network_error_result ty"
    by (simp add: analyzeVideo_settle_def finally_block_def catch_block_def)
  moreover have "ResultsDisplay (network_error_result ty) = Inl TypeError"
    by (simp add: ResultsDisplay_def network_error_result_def js_def)
  ultimately show ?thesis
    using ResultsDisplay_defined_iff [of payload] settle_failed_payload [of data s ty st]
    by (simp add: copyToClipboard_def)
qed

theorem ResultsDisplay_needs_result_witness:
  "get_prop (Obj [(js ''success'', Bool False), (js ''error'', Str (js ''quota exceeded''))])
     (js ''success'') = Inr (Bool False) \<and> \<not> truthy (Bool False) \<and>
   result (analyzeVideo_settle (js ''technical_analysis'')
     (JsonBody (Obj [(js ''success'', Bool False), (js ''error'', Str (js ''quota exceeded''))]))
     useVideoAnalysis) =
     Obj [(js ''success'', Bool False), (js ''error'', Str (js ''quota exceeded''))] \<and>
   ResultsDisplay (Obj [(js ''success'', Bool False), (js ''error'', Str (js ''quota exceeded''))]) =
     Inl TypeError \<and>
   (\<nexists>r. ResultsDisplay (Obj [(js ''success'', Bool False), (js ''error'', Str (js ''quota exceeded''))]) =
     Inr r)"
proof -
  let ?data = "Obj [(js ''success'', Bool False), (js ''error'', Str (js ''quota exceeded''))]"
  have g: "get_prop ?data (js ''success'') = Inr (Bool False) \<and> \<not> truthy (Bool False)"
    by (simp add: js_def)
  have r: "ResultsDisplay ?data = Inl TypeError"
    by (simp add: ResultsDisplay_def js_def)
  from ResultsDisplay_needs_result [of ?data ?data "Bool False" "js ''technical_analysis''"
      useVideoAnalysis] g r
  show ?thesis
    by simp
qed

end
